theory Spec2Isabelle
  imports Main
begin

section \<open>Data model of the JSON-to-XML token converter (main.go)\<close>

text \<open>
  \<^verbatim>\<open>type ttype byte\<close> with the six constants \<^verbatim>\<open>typObject .. typNull\<close> (main.go, lines 14-23).
\<close>

datatype ttype = typObject | typArray | typBool | typNumber | typString | typNull

text \<open>
  \<^verbatim>\<open>var ttypeNames = [...]string{"object", "array", "boolean", "number", "string", "null"}\<close>
  (line 25). The table is indexed by a \<^verbatim>\<open>ttype\<close> constant only, so the index is always in range.
\<close>

fun ttypeNames :: "ttype \<Rightarrow> string" where
  "ttypeNames typObject = ''object''"
| "ttypeNames typArray = ''array''"
| "ttypeNames typBool = ''boolean''"
| "ttypeNames typNumber = ''number''"
| "ttypeNames typString = ''string''"
| "ttypeNames typNull = ''null''"

text \<open>
  A \<^verbatim>\<open>json.Token\<close> is an interface value. The converter's type switch (lines 77-115)
  distinguishes \<^verbatim>\<open>json.Delim\<close> (a rune), \<^verbatim>\<open>bool\<close>, \<^verbatim>\<open>float64\<close>, \<^verbatim>\<open>json.Number\<close>,
  \<^verbatim>\<open>string\<close>, \<^verbatim>\<open>nil\<close> and everything else. The only observation the code makes of a
  \<^verbatim>\<open>float64\<close> is \<^verbatim>\<open>strconv.FormatFloat(token, 'f', -1, 64)\<close>, so a float token is
  represented by that rendering; \<^verbatim>\<open>strconv.FormatBool\<close> is written out in \<open>FormatBool\<close>.
\<close>

datatype json_token =
    Delim char
  | JBool bool
  | JFloat64 string
  | JNumber string
  | JString string
  | JNil
  | JOther

fun FormatBool :: "bool \<Rightarrow> string" where
  "FormatBool True = ''true''"
| "FormatBool False = ''false''"

text \<open>The three kinds of \<^verbatim>\<open>xml.Token\<close> the converter builds.\<close>

datatype xml_token = StartElement string | EndElement string | CharData string

text \<open>
  Errors as values: \<^verbatim>\<open>io.EOF\<close>, the three package errors of lines 214-218, any other
  error a decoder or an encoder reports, and the run-time panic of an index out of range.
\<close>

datatype error =
    EOF
  | ErrInvalidKey
  | ErrUnknownToken
  | ErrInvalidToken
  | OtherError string
  | IndexPanic

text \<open>
  \<^verbatim>\<open>JSONDecoder\<close> (lines 27-29) is an interface with one method \<^verbatim>\<open>Token() (json.Token, error)\<close>.
  A decoder is modelled by the finite sequence of answers it still has to give; once they
  are used up it answers \<^verbatim>\<open>io.EOF\<close>, as a \<^verbatim>\<open>json.Decoder\<close> does at the end of its input.
  The code looks at the error first, so an answer is either an error or a token.
\<close>

type_synonym JSONDecoder = "(error + json_token) list"

fun decoder_Token :: "JSONDecoder \<Rightarrow> (error + json_token) \<times> JSONDecoder" where
  "decoder_Token [] = (Inl EOF, [])"
| "decoder_Token (r # rs) = (r, rs)"

text \<open>
  \<^verbatim>\<open>type Converter struct\<close> (lines 35-41). The three slices are stacks that grow at the end
  (\<^verbatim>\<open>append\<close>), so the top is the last element; \<^verbatim>\<open>data *string\<close> is an optional string.
\<close>

record Converter =
  decoder :: JSONDecoder
  types :: "ttype list"
  data :: "string option"
  keyNames :: "string list"
  arrayKeys :: "string list"

text \<open>\<^verbatim>\<open>func Tokens(j JSONDecoder) *Converter\<close> (lines 43-47): every other field has its zero value.\<close>

definition Tokens :: "JSONDecoder \<Rightarrow> Converter" where
  "Tokens j = \<lparr>decoder = j, types = [], data = None, keyNames = [], arrayKeys = []\<rparr>"

section \<open>The converter's operations\<close>

text \<open>\<^verbatim>\<open>func (c *Converter) outputStart(typ ttype) xml.Token\<close> (lines 123-146).\<close>

definition outputStart :: "ttype \<Rightarrow> Converter \<Rightarrow> xml_token \<times> Converter" where
  "outputStart typ c =
     (let c1 = c\<lparr>types := types c @ [typ]\<rparr> in
      if keyNames c1 \<noteq> [] then
        (let lastKey = last (keyNames c1) in
         if arrayKeys c1 \<noteq> [] \<and> lastKey = last (arrayKeys c1)
         then (StartElement lastKey, c1)
         else (StartElement lastKey, c1\<lparr>keyNames := butlast (keyNames c1)\<rparr>))
      else (StartElement (ttypeNames typ), c1))"

text \<open>\<^verbatim>\<open>func (c *Converter) outputType(typ ttype, data string) xml.Token\<close> (lines 118-121).\<close>

definition outputType :: "ttype \<Rightarrow> string \<Rightarrow> Converter \<Rightarrow> xml_token \<times> Converter" where
  "outputType typ d c = outputStart typ (c\<lparr>data := Some d\<rparr>)"

text \<open>
  \<^verbatim>\<open>func (c *Converter) outputEnd() xml.Token\<close> (lines 148-172). Line 149 reads
  \<^verbatim>\<open>c.types[len(c.types)-1]\<close> with no check: on an empty stack Go panics, which is \<open>None\<close> here.
\<close>

definition outputEnd :: "Converter \<Rightarrow> (xml_token \<times> Converter) option" where
  "outputEnd c =
     (if types c = [] then None
      else
        (let typ = last (types c);
             c1 = c\<lparr>types := butlast (types c)\<rparr> in
         if keyNames c1 \<noteq> [] \<and> arrayKeys c1 \<noteq> [] \<and> last (keyNames c1) = last (arrayKeys c1)
         then Some (EndElement (last (arrayKeys c1)), c1)
         else if keyNames c1 \<noteq> []
         then Some (EndElement (last (keyNames c1)), c1\<lparr>keyNames := butlast (keyNames c1)\<rparr>)
         else Some (EndElement (ttypeNames typ), c1)))"

text \<open>What \<^verbatim>\<open>return c.outputEnd(), nil\<close> gives to the caller of \<^verbatim>\<open>Token\<close>.\<close>

definition return_outputEnd :: "Converter \<Rightarrow> (error + xml_token) \<times> Converter" where
  "return_outputEnd c =
     (case outputEnd c of
        None \<Rightarrow> (Inl IndexPanic, c)
      | Some (tk, c') \<Rightarrow> (Inr tk, c'))"

text \<open>
  The type switch on the token to convert (lines 77-115), the second half of
  \<^verbatim>\<open>func (c *Converter) Token() (xml.Token, error)\<close>.
\<close>

fun Token_switch :: "json_token \<Rightarrow> Converter \<Rightarrow> (error + xml_token) \<times> Converter" where
  "Token_switch (Delim d) c =
     (if d = CHR ''{'' then
        (case outputStart typObject c of (tk, c') \<Rightarrow> (Inr tk, c'))
      else if d = CHR ''['' then
        (let c1 = (if keyNames c \<noteq> []
                   then c\<lparr>arrayKeys := arrayKeys c @ [last (keyNames c)]\<rparr> else c) in
         case outputStart typArray c1 of (tk, c') \<Rightarrow> (Inr tk, c'))
      else if d = CHR ''}'' then
        (if types c = [] \<or> last (types c) \<noteq> typObject then (Inl ErrInvalidToken, c)
         else return_outputEnd c)
      else if d = CHR '']'' then
        (if types c = [] \<or> last (types c) \<noteq> typArray then (Inl ErrInvalidToken, c)
         else
           (let c1 = (if arrayKeys c \<noteq> []
                      then c\<lparr>arrayKeys := butlast (arrayKeys c)\<rparr> else c) in
            return_outputEnd c1))
      else (Inl ErrUnknownToken, c))"
| "Token_switch (JBool b) c =
     (case outputType typBool (FormatBool b) c of (tk, c') \<Rightarrow> (Inr tk, c'))"
| "Token_switch (JFloat64 s) c =
     (case outputType typNumber s c of (tk, c') \<Rightarrow> (Inr tk, c'))"
| "Token_switch (JNumber s) c =
     (case outputType typNumber s c of (tk, c') \<Rightarrow> (Inr tk, c'))"
| "Token_switch (JString s) c =
     (case outputType typString s c of (tk, c') \<Rightarrow> (Inr tk, c'))"
| "Token_switch JNil c =
     (case outputType typNull [] c of (tk, c') \<Rightarrow> (Inr tk, c'))"
| "Token_switch JOther c = (Inl ErrUnknownToken, c)"

text \<open>
  \<^verbatim>\<open>func (c *Converter) Token() (xml.Token, error)\<close> (lines 49-116): one pull. The result is
  the error or the XML token, together with the converter as the call leaves it.
\<close>

definition Token :: "Converter \<Rightarrow> (error + xml_token) \<times> Converter" where
  "Token c =
     (case data c of
        Some d \<Rightarrow> (Inr (CharData d), c\<lparr>data := None\<rparr>)
      | None \<Rightarrow>
          if types c \<noteq> [] \<and> last (types c) \<noteq> typObject \<and> last (types c) \<noteq> typArray
          then return_outputEnd c
          else
            (case decoder_Token (decoder c) of
               (Inl err, d1) \<Rightarrow> (Inl err, c\<lparr>decoder := d1\<rparr>)
             | (Inr token, d1) \<Rightarrow>
                 (let c1 = c\<lparr>decoder := d1\<rparr> in
                  if types c1 \<noteq> [] \<and> last (types c1) = typObject \<and> token \<noteq> Delim (CHR ''}'')
                  then
                    (case token of
                       JString tokenStr \<Rightarrow>
                         (let c2 = c1\<lparr>keyNames := keyNames c1 @ [tokenStr]\<rparr> in
                          case decoder_Token (decoder c2) of
                            (Inl err, d2) \<Rightarrow> (Inl err, c2\<lparr>decoder := d2\<rparr>)
                          | (Inr token2, d2) \<Rightarrow> Token_switch token2 (c2\<lparr>decoder := d2\<rparr>))
                     | _ \<Rightarrow> (Inl ErrInvalidKey, c1))
                  else Token_switch token c1)))"

section \<open>The driver\<close>

text \<open>
  \<^verbatim>\<open>XMLEncoder\<close> (lines 31-33) is an interface with one method
  \<^verbatim>\<open>EncodeToken(xml.Token) error\<close>. A sink is any function from its state and a token to an
  optional error and its next state.
\<close>

type_synonym 'x XMLEncoder = "'x \<Rightarrow> xml_token \<Rightarrow> error option \<times> 'x"

text \<open>The size of what a converter can still do: it decreases with every successful pull.\<close>

definition pull_measure :: "Converter \<Rightarrow> nat" where
  "pull_measure c =
     3 * length (decoder c) + length (types c) + (case data c of None \<Rightarrow> 0 | Some _ \<Rightarrow> 1)"

lemma outputStart_fields:
  "outputStart typ c = (tk, c') \<Longrightarrow>
     decoder c' = decoder c \<and> types c' = types c @ [typ] \<and> data c' = data c"
  by (auto simp: outputStart_def Let_def split: if_splits)

lemma return_outputEnd_fields:
  "return_outputEnd c = (Inr tk, c') \<Longrightarrow>
     decoder c' = decoder c \<and> types c' = butlast (types c) \<and> types c \<noteq> [] \<and>
     data c' = data c"
  by (auto simp: return_outputEnd_def outputEnd_def Let_def split: if_splits option.splits)

lemma Token_switch_size:
  "Token_switch t c = (Inr tk, c') \<Longrightarrow> data c = None \<Longrightarrow>
     decoder c' = decoder c \<and>
     length (types c') + (case data c' of None \<Rightarrow> 0 | Some _ \<Rightarrow> 1) \<le> length (types c) + 2"
  by (cases t)
    (auto simp: outputType_def split: if_splits prod.splits
      dest!: outputStart_fields return_outputEnd_fields)

lemma decoder_Token_length:
  "decoder_Token l = (r, d') \<Longrightarrow>
     length d' \<le> length l \<and> (\<forall>t. r = Inr t \<longrightarrow> length l = Suc (length d'))"
  by (cases l) auto

lemma Token_measure: "Token c = (Inr tk, c') \<Longrightarrow> pull_measure c' < pull_measure c"
  by (cases "decoder c")
    (auto simp: Token_def pull_measure_def Let_def
      split: option.splits if_splits prod.splits sum.splits json_token.splits list.splits
      dest!: return_outputEnd_fields Token_switch_size decoder_Token_length)

text \<open>
  The loop of \<^verbatim>\<open>Convert\<close> (lines 185-198): pull, stop with success on \<^verbatim>\<open>io.EOF\<close>, return any
  other error, forward the token to the sink and return the sink's error if it reports one.
  Every successful pull returns a start tag, an end tag or character data, never \<^verbatim>\<open>nil\<close>,
  so the test \<^verbatim>\<open>tk != nil\<close> of line 193 always holds.
\<close>

function Convert_loop :: "'x XMLEncoder \<Rightarrow> Converter \<Rightarrow> 'x \<Rightarrow> error option \<times> 'x" where
  "Convert_loop x c s =
     (case Token c of
        (Inl err, c') \<Rightarrow> if err = EOF then (None, s) else (Some err, s)
      | (Inr tk, c') \<Rightarrow>
          (case x s tk of
             (Some err, s') \<Rightarrow> (Some err, s')
           | (None, s') \<Rightarrow> Convert_loop x c' s'))"
  by pat_completeness auto
termination
  by (relation "measure (\<lambda>(x, c, s). pull_measure c)") (auto intro: Token_measure [OF sym])

declare Convert_loop.simps [simp del]

text \<open>\<^verbatim>\<open>func Convert(j JSONDecoder, x XMLEncoder) error\<close> (lines 174-207).\<close>

definition Convert :: "JSONDecoder \<Rightarrow> 'x XMLEncoder \<Rightarrow> 'x \<Rightarrow> error option \<times> 'x" where
  "Convert j x s =
     (let c = Tokens j in
      case x s (StartElement ''root'') of
        (Some err, s1) \<Rightarrow> (Some err, s1)
      | (None, s1) \<Rightarrow>
          (case Convert_loop x c s1 of
             (Some err, s2) \<Rightarrow> (Some err, s2)
           | (None, s2) \<Rightarrow>
               (case x s2 (EndElement ''root'') of
                  (Some err, s3) \<Rightarrow> (Some err, s3)
                | (None, s3) \<Rightarrow> (None, s3))))"

section \<open>Pull sequences and sinks used to state the properties\<close>

text \<open>
  The converter pulled until its first error: the tokens it returned, the error that ended
  the sequence (\<open>EOF\<close> at the end of the input) and the converter after that last pull.
\<close>

function pull_all :: "Converter \<Rightarrow> xml_token list \<times> error \<times> Converter" where
  "pull_all c =
     (case Token c of
        (Inl err, c') \<Rightarrow> ([], err, c')
      | (Inr tk, c') \<Rightarrow> (case pull_all c' of (toks, err, cf) \<Rightarrow> (tk # toks, err, cf)))"
  by pat_completeness auto
termination
  by (relation "measure pull_measure") (auto intro: Token_measure [OF sym])

declare pull_all.simps [simp del]

text \<open>\<open>n\<close> pulls in a row, all of them successful: the tokens and the converter after them.\<close>

fun pulls :: "nat \<Rightarrow> Converter \<Rightarrow> (xml_token list \<times> Converter) option" where
  "pulls 0 c = Some ([], c)"
| "pulls (Suc n) c =
     (case Token c of
        (Inl err, c') \<Rightarrow> None
      | (Inr tk, c') \<Rightarrow>
          (case pulls n c' of None \<Rightarrow> None | Some (toks, c'') \<Rightarrow> Some (tk # toks, c'')))"

text \<open>A sink fed a list of tokens in order, up to the first one it refuses.\<close>

fun feed :: "'x XMLEncoder \<Rightarrow> 'x \<Rightarrow> xml_token list \<Rightarrow> error option \<times> 'x" where
  "feed x s [] = (None, s)"
| "feed x s (tk # toks) =
     (case x s tk of (Some err, s') \<Rightarrow> (Some err, s') | (None, s') \<Rightarrow> feed x s' toks)"

text \<open>A sink that accepts every token and keeps them in order.\<close>

definition record_sink :: "(xml_token list) XMLEncoder" where
  "record_sink s tk = (None, s @ [tk])"

text \<open>A sink that keeps the tokens in order and reports an error on one given token.\<close>

definition refusing_sink :: "xml_token \<Rightarrow> (xml_token list) XMLEncoder" where
  "refusing_sink bad s tk =
     (if tk = bad then (Some (OtherError ''sink''), s) else (None, s @ [tk]))"

text \<open>
  The compact text of a token sequence in which the scenarios are written: no indentation,
  no escaping.
\<close>

fun serialize :: "xml_token list \<Rightarrow> string" where
  "serialize [] = []"
| "serialize (StartElement n # toks) = ''<'' @ n @ ''>'' @ serialize toks"
| "serialize (EndElement n # toks) = ''</'' @ n @ ''>'' @ serialize toks"
| "serialize (CharData d # toks) = d @ serialize toks"

text \<open>
  Modelled from the spec: the JSON Token Source is \<^verbatim>\<open>encoding/json\<close>'s decoder, which is
  not part of the repository. A well-formed token stream is the stream of one JSON value:
  an object is a start-of-object marker, its fields (a key string, then the field's value)
  and an end-of-object marker; an array is its markers around its elements; a number is a
  floating value or a decimal text.
\<close>

datatype json =
    VObject "(string \<times> json) list"
  | VArray "json list"
  | VBool bool
  | VFloat64 string
  | VNumber string
  | VString string
  | VNull

fun tokens_of :: "json \<Rightarrow> json_token list"
  and fields_tokens :: "(string \<times> json) list \<Rightarrow> json_token list"
  and elems_tokens :: "json list \<Rightarrow> json_token list" where
  "tokens_of (VObject fs) = Delim (CHR ''{'') # fields_tokens fs @ [Delim (CHR ''}'')]"
| "tokens_of (VArray vs) = Delim (CHR ''['') # elems_tokens vs @ [Delim (CHR '']'')]"
| "tokens_of (VBool b) = [JBool b]"
| "tokens_of (VFloat64 s) = [JFloat64 s]"
| "tokens_of (VNumber s) = [JNumber s]"
| "tokens_of (VString s) = [JString s]"
| "tokens_of VNull = [JNil]"
| "fields_tokens [] = []"
| "fields_tokens ((k, v) # fs) = JString k # tokens_of v @ fields_tokens fs"
| "elems_tokens [] = []"
| "elems_tokens (v # vs) = tokens_of v @ elems_tokens vs"

text \<open>The decoder over a token stream: it answers the tokens in order, then \<^verbatim>\<open>io.EOF\<close>.\<close>

definition decoder_of :: "json_token list \<Rightarrow> JSONDecoder" where
  "decoder_of ts = map Inr ts"

text \<open>The kind of a JSON value, and whether it is an array.\<close>

fun kind_of :: "json \<Rightarrow> ttype" where
  "kind_of (VObject fs) = typObject"
| "kind_of (VArray vs) = typArray"
| "kind_of (VBool b) = typBool"
| "kind_of (VFloat64 s) = typNumber"
| "kind_of (VNumber s) = typNumber"
| "kind_of (VString s) = typString"
| "kind_of VNull = typNull"

fun is_array :: "json \<Rightarrow> bool" where
  "is_array (VArray vs) = True"
| "is_array v = False"

text \<open>
  The naming rule of the spec as a function of the document. A value is converted in a
  context \<open>ctx\<close>: the key of the innermost key-bound array around it, if there is one. It
  stands either for an element of an array or for the root (\<open>key = None\<close>) or for the field
  of an object (\<open>key = Some k\<close>).

  \<open>default_name\<close> is the name the closing rule gives outside a binding (the default name
  of the kind) and inside one (the key of the array); \<open>start_name\<close> is the name of the
  start tag.
\<close>

fun default_name :: "string option \<Rightarrow> ttype \<Rightarrow> string" where
  "default_name None ty = ttypeNames ty"
| "default_name (Some n) ty = n"

fun start_name :: "string option \<Rightarrow> string option \<Rightarrow> json \<Rightarrow> string" where
  "start_name ctx None v = default_name ctx (kind_of v)"
| "start_name ctx (Some k) v = k"

text \<open>
  \<open>xml_value ctx key v\<close> is what follows the start tag of \<open>v\<close>, up to and including its end
  tag. An array that is the value of a field \<open>k\<close> is key-bound: its elements are converted
  in the context \<open>Some k\<close> and it is closed under \<open>k\<close>. Every other value is closed under
  \<open>default_name ctx\<close> of its kind.
\<close>

fun xml_value :: "string option \<Rightarrow> string option \<Rightarrow> json \<Rightarrow> xml_token list"
  and xml_fields :: "string option \<Rightarrow> (string \<times> json) list \<Rightarrow> xml_token list"
  and xml_elems :: "string option \<Rightarrow> json list \<Rightarrow> xml_token list" where
  "xml_value ctx key (VObject fs) = xml_fields ctx fs @ [EndElement (default_name ctx typObject)]"
| "xml_value ctx None (VArray vs) = xml_elems ctx vs @ [EndElement (default_name ctx typArray)]"
| "xml_value ctx (Some k) (VArray vs) = xml_elems (Some k) vs @ [EndElement k]"
| "xml_value ctx key (VBool b) = [CharData (FormatBool b), EndElement (default_name ctx typBool)]"
| "xml_value ctx key (VFloat64 s) = [CharData s, EndElement (default_name ctx typNumber)]"
| "xml_value ctx key (VNumber s) = [CharData s, EndElement (default_name ctx typNumber)]"
| "xml_value ctx key (VString s) = [CharData s, EndElement (default_name ctx typString)]"
| "xml_value ctx key VNull = [CharData [], EndElement (default_name ctx typNull)]"
| "xml_fields ctx [] = []"
| "xml_fields ctx ((k, v) # fs) = StartElement k # xml_value ctx (Some k) v @ xml_fields ctx fs"
| "xml_elems ctx [] = []"
| "xml_elems ctx (v # vs) =
     StartElement (start_name ctx None v) # xml_value ctx None v @ xml_elems ctx vs"

text \<open>
  The documents for which \<open>xml_value\<close> is what the converter does: no field has the key of
  the innermost key-bound array around it.
\<close>

fun clean :: "string option \<Rightarrow> string option \<Rightarrow> json \<Rightarrow> bool"
  and clean_fields :: "string option \<Rightarrow> (string \<times> json) list \<Rightarrow> bool"
  and clean_elems :: "string option \<Rightarrow> json list \<Rightarrow> bool" where
  "clean ctx key (VObject fs) = clean_fields ctx fs"
| "clean ctx None (VArray vs) = clean_elems ctx vs"
| "clean ctx (Some k) (VArray vs) = clean_elems (Some k) vs"
| "clean ctx key (VBool b) = True"
| "clean ctx key (VFloat64 s) = True"
| "clean ctx key (VNumber s) = True"
| "clean ctx key (VString s) = True"
| "clean ctx key VNull = True"
| "clean_fields ctx [] = True"
| "clean_fields ctx ((k, v) # fs) =
     (Some k \<noteq> ctx \<and> clean ctx (Some k) v \<and> clean_fields ctx fs)"
| "clean_elems ctx [] = True"
| "clean_elems ctx (v # vs) = (clean ctx None v \<and> clean_elems ctx vs)"

text \<open>
  The two name stacks in a context: both empty outside a binding, both with the key of
  the array on top inside one. \<open>inner_ctx\<close> is the context of the elements of an array,
  \<open>inner_stack\<close> the Array-Binding Stack while the array is open.
\<close>

fun in_ctx :: "string list \<Rightarrow> string list \<Rightarrow> string option \<Rightarrow> bool" where
  "in_ctx K A None = (K = [] \<and> A = [])"
| "in_ctx K A (Some n) = (K \<noteq> [] \<and> A \<noteq> [] \<and> last K = n \<and> last A = n)"

fun push_key :: "string list \<Rightarrow> string option \<Rightarrow> string list" where
  "push_key K None = K"
| "push_key K (Some k) = K @ [k]"

fun inner_ctx :: "string option \<Rightarrow> string option \<Rightarrow> string option" where
  "inner_ctx ctx None = ctx"
| "inner_ctx ctx (Some k) = Some k"

fun inner_stack :: "string list \<Rightarrow> string option \<Rightarrow> string list" where
  "inner_stack A None = A"
| "inner_stack A (Some n) = A @ [n]"

text \<open>
  A converter between two tokens: no pending text, and the given frame stack, decoder
  answers, Pending Key Stack and Array-Binding Stack.
\<close>

definition at ::
  "Converter \<Rightarrow> ttype list \<Rightarrow> JSONDecoder \<Rightarrow> string list \<Rightarrow> string list \<Rightarrow> bool" where
  "at c ts d K A \<longleftrightarrow>
     types c = ts \<and> data c = None \<and> decoder c = d \<and> keyNames c = K \<and> arrayKeys c = A"


text \<open>The token streams of the documents of the scenarios.\<close>

definition doc_tags :: "json_token list" where
  "doc_tags =
     [Delim (CHR ''{''), JString ''tags'', Delim (CHR ''[''), JString ''x'', JString ''y'',
      Delim (CHR '']''), Delim (CHR ''}'')]"


definition doc_123 :: "json_token \<Rightarrow> json_token \<Rightarrow> json_token \<Rightarrow> json_token list" where
  "doc_123 one two three = [Delim (CHR ''[''), one, two, three, Delim (CHR '']'')]"

section \<open>Lemmas on single pulls and pull sequences\<close>

lemmas run_defs =
  Convert_def Tokens_def decoder_of_def record_sink_def Convert_loop.simps Token_def
  return_outputEnd_def outputEnd_def outputStart_def outputType_def Let_def

lemmas pull_defs =
  Token_def return_outputEnd_def outputEnd_def outputStart_def outputType_def Let_def

text \<open>
  The read of line 149 is always in range where \<open>Token\<close> calls \<open>outputEnd\<close>: a pull never
  ends in the panic, unless the decoder itself answers with it.
\<close>

lemma return_outputEnd_no_panic:
  "types c \<noteq> [] \<Longrightarrow> fst (return_outputEnd c) \<noteq> Inl IndexPanic"
  by (simp add: return_outputEnd_def outputEnd_def Let_def)

lemma Token_switch_no_panic: "fst (Token_switch tok c) \<noteq> Inl IndexPanic"
  by (cases tok) (auto simp: return_outputEnd_no_panic Let_def split: prod.splits)

lemma Token_no_panic:
  assumes "Inl IndexPanic \<notin> set (decoder c)"
  shows "fst (Token c) \<noteq> Inl IndexPanic"
proof (cases "decoder c")
  case Nil
  then show ?thesis
    by (auto simp: Token_def return_outputEnd_no_panic split: option.splits)
next
  case (Cons r rs)
  show ?thesis
  proof (cases rs)
    case Nil
    with Cons assms show ?thesis
      by (auto simp: Token_def Let_def return_outputEnd_no_panic Token_switch_no_panic
          split: option.splits sum.splits json_token.splits)
  next
    case (Cons r' rs')
    with \<open>decoder c = r # rs\<close> assms show ?thesis
      by (auto simp: Token_def Let_def return_outputEnd_no_panic Token_switch_no_panic
          split: option.splits sum.splits json_token.splits)
  qed
qed

lemma pulls_step:
  "Token c = (Inr tk, c1) \<Longrightarrow> pulls n c1 = Some (out, c2) \<Longrightarrow>
     pulls (Suc n) c = Some (tk # out, c2)"
  by simp

lemma pulls_append:
  "pulls n c = Some (o1, c1) \<Longrightarrow> pulls m c1 = Some (o2, c2) \<Longrightarrow>
     pulls (n + m) c = Some (o1 @ o2, c2)"
  by (induction n arbitrary: c o1) (auto split: prod.splits sum.splits option.splits)

lemma pulls_one: "Token c = (Inr tk, c1) \<Longrightarrow> pulls (Suc 0) c = Some ([tk], c1)"
  by simp

lemma pulls_two:
  "Token c = (Inr tk, c1) \<Longrightarrow> Token c1 = (Inr tk', c2) \<Longrightarrow>
     pulls (Suc (Suc 0)) c = Some ([tk, tk'], c2)"
  by simp

declare pulls.simps(2) [simp del]

lemma tokens_of_not_Nil: "tokens_of v \<noteq> []"
  by (cases v) simp_all

lemma Token_field:
  "data c = None \<Longrightarrow> types c \<noteq> [] \<Longrightarrow> last (types c) = typObject \<Longrightarrow>
   decoder c = Inr (JString k) # Inr tok # rest \<Longrightarrow>
     Token c = Token_switch tok (c\<lparr>keyNames := keyNames c @ [k], decoder := rest\<rparr>)"
  by (simp add: Token_def Let_def)

lemma Token_elem:
  "data c = None \<Longrightarrow> types c = [] \<or> last (types c) = typArray \<Longrightarrow>
   decoder c = Inr tok # rest \<Longrightarrow>
     Token c = Token_switch tok (c\<lparr>decoder := rest\<rparr>)"
  by (auto simp: Token_def Let_def)

lemma Token_close_object:
  "data c = None \<Longrightarrow> types c \<noteq> [] \<Longrightarrow> last (types c) = typObject \<Longrightarrow>
   decoder c = Inr (Delim (CHR ''}'')) # rest \<Longrightarrow>
     Token c = return_outputEnd (c\<lparr>decoder := rest\<rparr>)"
  by (simp add: Token_def Let_def)

lemma return_outputEnd_pops:
  "types c \<noteq> [] \<Longrightarrow>
     \<exists>tk c'. return_outputEnd c = (Inr tk, c') \<and> types c' = butlast (types c) \<and>
       data c' = data c \<and> decoder c' = decoder c"
  by (simp add: return_outputEnd_def outputEnd_def Let_def)

lemma outputStart_pushes:
  "\<exists>tk c'. outputStart typ c = (tk, c') \<and> types c' = types c @ [typ] \<and>
       data c' = data c \<and> decoder c' = decoder c"
  by (simp add: outputStart_def Let_def)

lemma outputType_settles:
  assumes "typ \<noteq> typObject" and "typ \<noteq> typArray"
  shows "\<exists>tk c1 out c2. outputType typ d c = (tk, c1) \<and> pulls 2 c1 = Some (out, c2) \<and>
           types c2 = types c \<and> data c2 = None \<and> decoder c2 = decoder c"
proof -
  obtain tk c1 where c1: "outputStart typ (c\<lparr>data := Some d\<rparr>) = (tk, c1)"
    "types c1 = types c @ [typ]" "data c1 = Some d" "decoder c1 = decoder c"
    using outputStart_pushes [of "typ" "c\<lparr>data := Some d\<rparr>"] by auto
  have t1: "Token c1 = (Inr (CharData d), c1\<lparr>data := None\<rparr>)"
    using c1 by (simp add: Token_def)
  obtain tk2 c2 where c2: "return_outputEnd (c1\<lparr>data := None\<rparr>) = (Inr tk2, c2)"
    "types c2 = types c" "data c2 = None" "decoder c2 = decoder c"
    using return_outputEnd_pops [of "c1\<lparr>data := None\<rparr>"] c1 by auto
  have t2: "Token (c1\<lparr>data := None\<rparr>) = (Inr tk2, c2)"
    using c1 c2 assms by (simp add: Token_def)
  have "pulls 2 c1 = Some ([CharData d, tk2], c2)"
    using pulls_two [OF t1 t2] by (simp add: numeral_2_eq_2)
  with c1 c2 show ?thesis by (auto simp: outputType_def)
qed


lemma scalar_settles:
  assumes "typ \<noteq> typObject" and "typ \<noteq> typArray"
    and "Token_switch tok c = (case outputType typ d c of (tk, c') \<Rightarrow> (Inr tk, c'))"
    and "decoder c = rest"
  shows "\<exists>tk c1 n out c2. Token_switch tok c = (Inr tk, c1) \<and> pulls n c1 = Some (out, c2) \<and>
           types c2 = types c \<and> data c2 = None \<and> decoder c2 = rest"
proof -
  obtain tk c1 out c2 where "outputType typ d c = (tk, c1)" "pulls 2 c1 = Some (out, c2)"
    "types c2 = types c" "data c2 = None" "decoder c2 = decoder c"
    using outputType_settles [OF assms(1,2), of d c] by blast
  with assms(3,4) show ?thesis by auto
qed

lemma Token_close_array:
  "data c = None \<Longrightarrow> types c \<noteq> [] \<Longrightarrow> last (types c) = typArray \<Longrightarrow>
   decoder c = Inr (Delim (CHR '']'')) # rest \<Longrightarrow>
     \<exists>tk c'. Token c = (Inr tk, c') \<and> types c' = butlast (types c) \<and> data c' = None \<and>
       decoder c' = rest"
  using return_outputEnd_pops [of "c\<lparr>decoder := rest\<rparr>"]
    return_outputEnd_pops [of "c\<lparr>decoder := rest, arrayKeys := butlast (arrayKeys c)\<rparr>"]
  by (auto simp: Token_def Let_def)

text \<open>
  Structural balance, by induction on the document: converting a value leaves the frame
  stack as it found it, whatever the two name stacks hold; the fields of an object up to
  its end marker, and the elements of an array up to its end marker, pop the frame of
  the object or array they belong to.
\<close>

lemma balanced:
  "\<forall>c tok ts rest. data c = None \<longrightarrow> tokens_of v = tok # ts \<longrightarrow>
      decoder c = map Inr ts @ rest \<longrightarrow>
      (\<exists>tk c1 n out c2. Token_switch tok c = (Inr tk, c1) \<and> pulls n c1 = Some (out, c2) \<and>
         types c2 = types c \<and> data c2 = None \<and> decoder c2 = rest)"
  "\<forall>c rest. data c = None \<longrightarrow> types c \<noteq> [] \<longrightarrow> last (types c) = typObject \<longrightarrow>
      decoder c = map Inr (fields_tokens fs) @ Inr (Delim (CHR ''}'')) # rest \<longrightarrow>
      (\<exists>n out c2. pulls n c = Some (out, c2) \<and>
         types c2 = butlast (types c) \<and> data c2 = None \<and> decoder c2 = rest)"
  "\<forall>c rest. data c = None \<longrightarrow> types c \<noteq> [] \<longrightarrow> last (types c) = typArray \<longrightarrow>
      decoder c = map Inr (elems_tokens vs) @ Inr (Delim (CHR '']'')) # rest \<longrightarrow>
      (\<exists>n out c2. pulls n c = Some (out, c2) \<and>
         types c2 = butlast (types c) \<and> data c2 = None \<and> decoder c2 = rest)"
proof (induction v and fs and vs rule: tokens_of_fields_tokens_elems_tokens.induct)
  case (1 fs)
  show ?case
  proof (intro allI impI)
    fix c :: Converter and tok ts rest
    assume d: "data c = None" and t: "tokens_of (VObject fs) = tok # ts"
      and dec: "decoder c = map Inr ts @ rest"
    obtain tk c1 where c1: "outputStart typObject c = (tk, c1)"
      "types c1 = types c @ [typObject]" "data c1 = data c" "decoder c1 = decoder c"
      using outputStart_pushes [of typObject c] by auto
    from t have tok: "tok = Delim (CHR ''{'')" and ts: "ts = fields_tokens fs @ [Delim (CHR ''}'')]"
      by simp_all
    have p: "data c1 = None" "types c1 \<noteq> []" "last (types c1) = typObject"
      "decoder c1 = map Inr (fields_tokens fs) @ Inr (Delim (CHR ''}'')) # rest"
      using c1 d dec ts by simp_all
    from 1 [rule_format, OF p] obtain n out c2 where
      "pulls n c1 = Some (out, c2)" "types c2 = butlast (types c1)" "data c2 = None"
      "decoder c2 = rest"
      by blast
    with c1 tok show "\<exists>tk c1 n out c2. Token_switch tok c = (Inr tk, c1) \<and>
        pulls n c1 = Some (out, c2) \<and> types c2 = types c \<and> data c2 = None \<and> decoder c2 = rest"
      by auto
  qed
next
  case (2 vs)
  show ?case
  proof (intro allI impI)
    fix c :: Converter and tok ts rest
    assume d: "data c = None" and t: "tokens_of (VArray vs) = tok # ts"
      and dec: "decoder c = map Inr ts @ rest"
    define c0 where "c0 = (if keyNames c \<noteq> []
                   then c\<lparr>arrayKeys := arrayKeys c @ [last (keyNames c)]\<rparr> else c)"
    have c0: "types c0 = types c" "data c0 = data c" "decoder c0 = decoder c"
      by (simp_all add: c0_def)
    obtain tk c1 where c1: "outputStart typArray c0 = (tk, c1)"
      "types c1 = types c @ [typArray]" "data c1 = data c" "decoder c1 = decoder c"
      using outputStart_pushes [of typArray c0] c0 by auto
    from t have tok: "tok = Delim (CHR ''['')" and ts: "ts = elems_tokens vs @ [Delim (CHR '']'')]"
      by simp_all
    have p: "data c1 = None" "types c1 \<noteq> []" "last (types c1) = typArray"
      "decoder c1 = map Inr (elems_tokens vs) @ Inr (Delim (CHR '']'')) # rest"
      using c1 d dec ts by simp_all
    from 2 [rule_format, OF p] obtain n out c2 where
      "pulls n c1 = Some (out, c2)" "types c2 = butlast (types c1)" "data c2 = None"
      "decoder c2 = rest"
      by blast
    with c1 tok show "\<exists>tk c1 n out c2. Token_switch tok c = (Inr tk, c1) \<and>
        pulls n c1 = Some (out, c2) \<and> types c2 = types c \<and> data c2 = None \<and> decoder c2 = rest"
      by (auto simp: c0_def [symmetric] Let_def)
  qed
next
  case (3 b)
  show ?case
  proof (intro allI impI)
    fix c :: Converter and tok ts rest
    assume "data c = None" and "tokens_of (VBool b) = tok # ts" and "decoder c = map Inr ts @ rest"
    then show "\<exists>tk c1 n out c2. Token_switch tok c = (Inr tk, c1) \<and>
        pulls n c1 = Some (out, c2) \<and> types c2 = types c \<and> data c2 = None \<and> decoder c2 = rest"
      using scalar_settles [of typBool tok c "FormatBool b" rest] by auto
  qed
next
  case (4 s)
  show ?case
  proof (intro allI impI)
    fix c :: Converter and tok ts rest
    assume "data c = None" and "tokens_of (VFloat64 s) = tok # ts" and "decoder c = map Inr ts @ rest"
    then show "\<exists>tk c1 n out c2. Token_switch tok c = (Inr tk, c1) \<and>
        pulls n c1 = Some (out, c2) \<and> types c2 = types c \<and> data c2 = None \<and> decoder c2 = rest"
      using scalar_settles [of typNumber tok c s rest] by auto
  qed
next
  case (5 s)
  show ?case
  proof (intro allI impI)
    fix c :: Converter and tok ts rest
    assume "data c = None" and "tokens_of (VNumber s) = tok # ts" and "decoder c = map Inr ts @ rest"
    then show "\<exists>tk c1 n out c2. Token_switch tok c = (Inr tk, c1) \<and>
        pulls n c1 = Some (out, c2) \<and> types c2 = types c \<and> data c2 = None \<and> decoder c2 = rest"
      using scalar_settles [of typNumber tok c s rest] by auto
  qed
next
  case (6 s)
  show ?case
  proof (intro allI impI)
    fix c :: Converter and tok ts rest
    assume "data c = None" and "tokens_of (VString s) = tok # ts" and "decoder c = map Inr ts @ rest"
    then show "\<exists>tk c1 n out c2. Token_switch tok c = (Inr tk, c1) \<and>
        pulls n c1 = Some (out, c2) \<and> types c2 = types c \<and> data c2 = None \<and> decoder c2 = rest"
      using scalar_settles [of typString tok c s rest] by auto
  qed
next
  case 7
  show ?case
  proof (intro allI impI)
    fix c :: Converter and tok ts rest
    assume "data c = None" and "tokens_of (VNull) = tok # ts" and "decoder c = map Inr ts @ rest"
    then show "\<exists>tk c1 n out c2. Token_switch tok c = (Inr tk, c1) \<and>
        pulls n c1 = Some (out, c2) \<and> types c2 = types c \<and> data c2 = None \<and> decoder c2 = rest"
      using scalar_settles [of typNull tok c "[]" rest] by auto
  qed
next
  case 8
  show ?case
  proof (intro allI impI)
    fix c :: Converter and rest
    assume a: "data c = None" "types c \<noteq> []" "last (types c) = typObject"
      "decoder c = map Inr (fields_tokens []) @ Inr (Delim (CHR ''}'')) # rest"
    then have "Token c = return_outputEnd (c\<lparr>decoder := rest\<rparr>)"
      by (simp add: Token_close_object)
    with a return_outputEnd_pops [of "c\<lparr>decoder := rest\<rparr>"]
    obtain tk c2 where "Token c = (Inr tk, c2)" "types c2 = butlast (types c)"
      "data c2 = None" "decoder c2 = rest"
      by auto
    then have "pulls 1 c = Some ([tk], c2)" by (simp add: pulls_one)
    then show "\<exists>n out c2. pulls n c = Some (out, c2) \<and>
         types c2 = butlast (types c) \<and> data c2 = None \<and> decoder c2 = rest"
      using \<open>types c2 = butlast (types c)\<close> \<open>data c2 = None\<close> \<open>decoder c2 = rest\<close> by blast
  qed
next
  case (9 k v fs)
  show ?case
  proof (intro allI impI)
    fix c :: Converter and rest
    assume a: "data c = None" "types c \<noteq> []" "last (types c) = typObject"
      and dec: "decoder c = map Inr (fields_tokens ((k, v) # fs)) @ Inr (Delim (CHR ''}'')) # rest"
    obtain tok ts where v: "tokens_of v = tok # ts"
      using tokens_of_not_Nil [of v] by (cases "tokens_of v") auto
    let ?rest = "map Inr (fields_tokens fs) @ Inr (Delim (CHR ''}'')) # rest"
    let ?c0 = "c\<lparr>keyNames := keyNames c @ [k], decoder := map Inr ts @ ?rest\<rparr>"
    have tok: "Token c = Token_switch tok ?c0"
      using a dec v by (intro Token_field) simp_all
    have c0: "data ?c0 = None" "decoder ?c0 = map Inr ts @ ?rest" "types ?c0 = types c"
      using a by simp_all
    from 9(1) [rule_format, OF c0(1) v c0(2)] obtain tk c1 n out c2 where
      s: "Token_switch tok ?c0 = (Inr tk, c1)" "pulls n c1 = Some (out, c2)"
         "types c2 = types ?c0" "data c2 = None" "decoder c2 = ?rest"
      by blast
    have c2: "types c2 \<noteq> []" "last (types c2) = typObject"
      using s a by simp_all
    from 9(2) [rule_format, OF s(4) c2 s(5)] obtain m out' c3 where
      f: "pulls m c2 = Some (out', c3)" "types c3 = butlast (types c2)" "data c3 = None"
         "decoder c3 = rest"
      by blast
    have "pulls (Suc n) c = Some (tk # out, c2)"
      using tok s by (simp add: pulls_step)
    from pulls_append [OF this f(1)]
    have "pulls (Suc n + m) c = Some ((tk # out) @ out', c3)" .
    with f s show "\<exists>n out c2. pulls n c = Some (out, c2) \<and>
         types c2 = butlast (types c) \<and> data c2 = None \<and> decoder c2 = rest"
      by (metis c0(3))
  qed
next
  case 10
  show ?case
  proof (intro allI impI)
    fix c :: Converter and rest
    assume a: "data c = None" "types c \<noteq> []" "last (types c) = typArray"
      "decoder c = map Inr (elems_tokens []) @ Inr (Delim (CHR '']'')) # rest"
    with Token_close_array [of c rest]
    obtain tk c2 where "Token c = (Inr tk, c2)" "types c2 = butlast (types c)"
      "data c2 = None" "decoder c2 = rest"
      by auto
    then have "pulls 1 c = Some ([tk], c2)" by (simp add: pulls_one)
    then show "\<exists>n out c2. pulls n c = Some (out, c2) \<and>
         types c2 = butlast (types c) \<and> data c2 = None \<and> decoder c2 = rest"
      using \<open>types c2 = butlast (types c)\<close> \<open>data c2 = None\<close> \<open>decoder c2 = rest\<close> by blast
  qed
next
  case (11 v vs)
  show ?case
  proof (intro allI impI)
    fix c :: Converter and rest
    assume a: "data c = None" "types c \<noteq> []" "last (types c) = typArray"
      and dec: "decoder c = map Inr (elems_tokens (v # vs)) @ Inr (Delim (CHR '']'')) # rest"
    obtain tok ts where v: "tokens_of v = tok # ts"
      using tokens_of_not_Nil [of v] by (cases "tokens_of v") auto
    let ?rest = "map Inr (elems_tokens vs) @ Inr (Delim (CHR '']'')) # rest"
    let ?c0 = "c\<lparr>decoder := map Inr ts @ ?rest\<rparr>"
    have tok: "Token c = Token_switch tok ?c0"
      using a dec v by (intro Token_elem) simp_all
    have c0: "data ?c0 = None" "decoder ?c0 = map Inr ts @ ?rest" "types ?c0 = types c"
      using a by simp_all
    from 11(1) [rule_format, OF c0(1) v c0(2)] obtain tk c1 n out c2 where
      s: "Token_switch tok ?c0 = (Inr tk, c1)" "pulls n c1 = Some (out, c2)"
         "types c2 = types ?c0" "data c2 = None" "decoder c2 = ?rest"
      by blast
    have c2: "types c2 \<noteq> []" "last (types c2) = typArray"
      using s a by simp_all
    from 11(2) [rule_format, OF s(4) c2 s(5)] obtain m out' c3 where
      f: "pulls m c2 = Some (out', c3)" "types c3 = butlast (types c2)" "data c3 = None"
         "decoder c3 = rest"
      by blast
    have "pulls (Suc n) c = Some (tk # out, c2)"
      using tok s by (simp add: pulls_step)
    from pulls_append [OF this f(1)]
    have "pulls (Suc n + m) c = Some ((tk # out) @ out', c3)" .
    with f s show "\<exists>n out c2. pulls n c = Some (out, c2) \<and>
         types c2 = butlast (types c) \<and> data c2 = None \<and> decoder c2 = rest"
      by (metis c0(3))
  qed
qed

text \<open>
  The naming, by induction on the document: in a context, with the key of a field pushed,
  a value is converted to its start tag and the tokens of \<open>xml_value\<close>, and both name
  stacks are then as they were before the key was read.
\<close>

lemma object_open:
  assumes "in_ctx K A ctx" and "key = None \<or> key \<noteq> ctx"
    and "at c ts d (push_key K key) A"
  shows "\<exists>c1. Token_switch (Delim (CHR ''{'')) c =
                 (Inr (StartElement (start_name ctx key (VObject fs))), c1) \<and>
              at c1 (ts @ [typObject]) d K A"
  using assms
  by (cases ctx; cases key) (auto simp: at_def outputStart_def Let_def)

lemma object_close:
  assumes "in_ctx K A ctx" and "at c (ts @ [typObject]) (Inr (Delim (CHR ''}'')) # rest) K A"
  shows "\<exists>c1. Token c = (Inr (EndElement (default_name ctx typObject)), c1) \<and> at c1 ts rest K A"
  using assms
  by (cases ctx) (auto simp: at_def Token_def return_outputEnd_def outputEnd_def Let_def)

lemma array_open:
  assumes "in_ctx K A ctx" and "key = None \<or> key \<noteq> ctx"
    and "at c ts d (push_key K key) A"
  shows "\<exists>c1. Token_switch (Delim (CHR ''['')) c =
                 (Inr (StartElement (start_name ctx key (VArray vs))), c1) \<and>
              at c1 (ts @ [typArray]) d (push_key K key) (inner_stack A (inner_ctx ctx key))"
  using assms
  by (cases ctx; cases key) (auto simp: at_def outputStart_def Let_def)

lemma array_close:
  assumes "in_ctx K A ctx" and "key = None \<or> key \<noteq> ctx"
    and "at c (ts @ [typArray]) (Inr (Delim (CHR '']'')) # rest) (push_key K key)
           (inner_stack A (inner_ctx ctx key))"
  shows "\<exists>c1. Token c = (Inr (EndElement (default_name (inner_ctx ctx key) typArray)), c1) \<and>
              at c1 ts rest K A"
  using assms
  by (cases ctx; cases key)
    (auto simp: at_def Token_def return_outputEnd_def outputEnd_def Let_def)

lemma inner_in_ctx:
  "in_ctx K A ctx \<Longrightarrow> in_ctx (push_key K key) (inner_stack A (inner_ctx ctx key)) (inner_ctx ctx key)"
  by (cases ctx; cases key) auto

lemma array_value:
  "xml_value ctx key (VArray vs) =
     xml_elems (inner_ctx ctx key) vs @ [EndElement (default_name (inner_ctx ctx key) typArray)]"
  "clean ctx key (VArray vs) = clean_elems (inner_ctx ctx key) vs"
  by (cases key; simp)+

lemma scalar_ctx:
  assumes "ty \<noteq> typObject" and "ty \<noteq> typArray"
    and "Token_switch tok c = (case outputType ty d c of (tk, c') \<Rightarrow> (Inr tk, c'))"
    and "in_ctx K A ctx" and "key = None \<or> key \<noteq> ctx"
    and "at c ts rest (push_key K key) A"
  shows "\<exists>c1 n c2. Token_switch tok c =
             (Inr (StartElement (case key of None \<Rightarrow> default_name ctx ty | Some k \<Rightarrow> k)), c1) \<and>
           pulls n c1 = Some ([CharData d, EndElement (default_name ctx ty)], c2) \<and>
           at c2 ts rest K A"
proof -
  let ?c1 = "c\<lparr>data := Some d, types := ts @ [ty], keyNames := K\<rparr>"
  let ?c2 = "c\<lparr>data := None, types := ts, keyNames := K\<rparr>"
  have o: "outputType ty d c =
      (StartElement (case key of None \<Rightarrow> default_name ctx ty | Some k \<Rightarrow> k), ?c1)"
    using assms(4-6)
    by (cases ctx; cases key) (auto simp: at_def outputType_def outputStart_def Let_def)
  have t1: "Token ?c1 = (Inr (CharData d), ?c1\<lparr>data := None\<rparr>)"
    by (simp add: Token_def)
  have t2: "Token (?c1\<lparr>data := None\<rparr>) = (Inr (EndElement (default_name ctx ty)), ?c2)"
    using assms(1,2,4,6)
    by (cases ctx) (auto simp: at_def Token_def return_outputEnd_def outputEnd_def Let_def)
  have "pulls (Suc (Suc 0)) ?c1 = Some ([CharData d, EndElement (default_name ctx ty)], ?c2)"
    using pulls_two [OF t1 t2] .
  moreover have "at ?c2 ts rest K A"
    using assms(6) by (simp add: at_def)
  ultimately show ?thesis
    using o assms(3) by (metis (mono_tags, lifting) case_prod_conv)
qed

lemma field_pull:
  assumes "at c ts (Inr (JString k) # Inr tok # d) K A" and "ts \<noteq> []" and "last ts = typObject"
  shows "\<exists>c0. Token c = Token_switch tok c0 \<and> at c0 ts d (K @ [k]) A"
proof -
  have "Token c = Token_switch tok (c\<lparr>keyNames := keyNames c @ [k], decoder := d\<rparr>)"
    using assms by (intro Token_field) (simp_all add: at_def)
  moreover have "at (c\<lparr>keyNames := keyNames c @ [k], decoder := d\<rparr>) ts d (K @ [k]) A"
    using assms(1) by (simp add: at_def)
  ultimately show ?thesis by blast
qed

lemma elem_pull:
  assumes "at c ts (Inr tok # d) K A" and "ts \<noteq> []" and "last ts = typArray"
  shows "\<exists>c0. Token c = Token_switch tok c0 \<and> at c0 ts d K A"
proof -
  have "Token c = Token_switch tok (c\<lparr>decoder := d\<rparr>)"
    using assms by (intro Token_elem) (simp_all add: at_def)
  moreover have "at (c\<lparr>decoder := d\<rparr>) ts d K A"
    using assms(1) by (simp add: at_def)
  ultimately show ?thesis by blast
qed

lemma named:
  "\<forall>c ctx key K A ts tok tks rest. clean ctx key v \<longrightarrow> in_ctx K A ctx \<longrightarrow>
      (key = None \<or> key \<noteq> ctx) \<longrightarrow>
      at c ts (map Inr tks @ rest) (push_key K key) A \<longrightarrow> tokens_of v = tok # tks \<longrightarrow>
      (\<exists>c1 n c2. Token_switch tok c = (Inr (StartElement (start_name ctx key v)), c1) \<and>
         pulls n c1 = Some (xml_value ctx key v, c2) \<and> at c2 ts rest K A)"
  "\<forall>c ctx K A ts rest. clean_fields ctx fs \<longrightarrow> in_ctx K A ctx \<longrightarrow>
      at c ts (map Inr (fields_tokens fs) @ rest) K A \<longrightarrow> ts \<noteq> [] \<longrightarrow> last ts = typObject \<longrightarrow>
      (\<exists>n c2. pulls n c = Some (xml_fields ctx fs, c2) \<and> at c2 ts rest K A)"
  "\<forall>c ctx K A ts rest. clean_elems ctx vs \<longrightarrow> in_ctx K A ctx \<longrightarrow>
      at c ts (map Inr (elems_tokens vs) @ rest) K A \<longrightarrow> ts \<noteq> [] \<longrightarrow> last ts = typArray \<longrightarrow>
      (\<exists>n c2. pulls n c = Some (xml_elems ctx vs, c2) \<and> at c2 ts rest K A)"
proof (induction v and fs and vs rule: tokens_of_fields_tokens_elems_tokens.induct)
  case (1 fs)
  show ?case
  proof (intro allI impI)
    fix c :: Converter and ctx key K A ts tok tks rest
    assume cl: "clean ctx key (VObject fs)" and ctx: "in_ctx K A ctx"
      and key: "key = None \<or> key \<noteq> ctx"
      and c: "at c ts (map Inr tks @ rest) (push_key K key) A"
      and t: "tokens_of (VObject fs) = tok # tks"
    from t have tok: "tok = Delim (CHR ''{'')" and tks: "tks = fields_tokens fs @ [Delim (CHR ''}'')]"
      by simp_all
    from object_open [OF ctx key c, of fs] obtain c1 where
      c1: "Token_switch tok c = (Inr (StartElement (start_name ctx key (VObject fs))), c1)"
          "at c1 (ts @ [typObject]) (map Inr tks @ rest) K A"
      using tok by blast
    have p: "clean_fields ctx fs"
      "at c1 (ts @ [typObject]) (map Inr (fields_tokens fs) @ Inr (Delim (CHR ''}'')) # rest) K A"
      "ts @ [typObject] \<noteq> []" "last (ts @ [typObject]) = typObject"
      using cl c1 tks by simp_all
    from 1 [rule_format, OF p(1) ctx p(2-4)] obtain n c2 where
      c2: "pulls n c1 = Some (xml_fields ctx fs, c2)"
          "at c2 (ts @ [typObject]) (Inr (Delim (CHR ''}'')) # rest) K A"
      by blast
    from object_close [OF ctx c2(2)] obtain c3 where
      c3: "Token c2 = (Inr (EndElement (default_name ctx typObject)), c3)" "at c3 ts rest K A"
      by blast
    from pulls_append [OF c2(1) pulls_one [OF c3(1)]]
    have "pulls (n + Suc 0) c1 = Some (xml_value ctx key (VObject fs), c3)"
      by simp
    with c1 c3 show "\<exists>c1 n c2.
        Token_switch tok c = (Inr (StartElement (start_name ctx key (VObject fs))), c1) \<and>
        pulls n c1 = Some (xml_value ctx key (VObject fs), c2) \<and> at c2 ts rest K A"
      by blast
  qed
next
  case (2 vs)
  show ?case
  proof (intro allI impI)
    fix c :: Converter and ctx key K A ts tok tks rest
    assume cl: "clean ctx key (VArray vs)" and ctx: "in_ctx K A ctx"
      and key: "key = None \<or> key \<noteq> ctx"
      and c: "at c ts (map Inr tks @ rest) (push_key K key) A"
      and t: "tokens_of (VArray vs) = tok # tks"
    let ?ctx = "inner_ctx ctx key" and ?K = "push_key K key"
    let ?A = "inner_stack A (inner_ctx ctx key)"
    from t have tok: "tok = Delim (CHR ''['')" and tks: "tks = elems_tokens vs @ [Delim (CHR '']'')]"
      by simp_all
    from array_open [OF ctx key c, of vs] obtain c1 where
      c1: "Token_switch tok c = (Inr (StartElement (start_name ctx key (VArray vs))), c1)"
          "at c1 (ts @ [typArray]) (map Inr tks @ rest) ?K ?A"
      using tok by blast
    have p: "clean_elems ?ctx vs"
      "at c1 (ts @ [typArray]) (map Inr (elems_tokens vs) @ Inr (Delim (CHR '']'')) # rest) ?K ?A"
      "ts @ [typArray] \<noteq> []" "last (ts @ [typArray]) = typArray"
      using cl c1 tks by (simp_all add: array_value)
    from 2 [rule_format, OF p(1) inner_in_ctx [OF ctx] p(2-4)] obtain n c2 where
      c2: "pulls n c1 = Some (xml_elems ?ctx vs, c2)"
          "at c2 (ts @ [typArray]) (Inr (Delim (CHR '']'')) # rest) ?K ?A"
      by blast
    from array_close [OF ctx key c2(2)] obtain c3 where
      c3: "Token c2 = (Inr (EndElement (default_name ?ctx typArray)), c3)" "at c3 ts rest K A"
      by blast
    from pulls_append [OF c2(1) pulls_one [OF c3(1)]]
    have "pulls (n + Suc 0) c1 = Some (xml_value ctx key (VArray vs), c3)"
      by (simp add: array_value)
    with c1 c3 show "\<exists>c1 n c2.
        Token_switch tok c = (Inr (StartElement (start_name ctx key (VArray vs))), c1) \<and>
        pulls n c1 = Some (xml_value ctx key (VArray vs), c2) \<and> at c2 ts rest K A"
      by blast
  qed
next
  case (3 b)
  show ?case
  proof (intro allI impI)
    fix c :: Converter and ctx key K A ts tok tks rest
    assume "in_ctx K A ctx" and "key = None \<or> key \<noteq> ctx"
      and "at c ts (map Inr tks @ rest) (push_key K key) A"
      and "tokens_of (VBool b) = tok # tks"
    then show "\<exists>c1 n c2.
        Token_switch tok c = (Inr (StartElement (start_name ctx key (VBool b))), c1) \<and>
        pulls n c1 = Some (xml_value ctx key (VBool b), c2) \<and> at c2 ts rest K A"
      using scalar_ctx [of typBool tok c "FormatBool b" K A ctx key ts rest]
      by (cases key) auto
  qed
next
  case (4 s)
  show ?case
  proof (intro allI impI)
    fix c :: Converter and ctx key K A ts tok tks rest
    assume "in_ctx K A ctx" and "key = None \<or> key \<noteq> ctx"
      and "at c ts (map Inr tks @ rest) (push_key K key) A"
      and "tokens_of (VFloat64 s) = tok # tks"
    then show "\<exists>c1 n c2.
        Token_switch tok c = (Inr (StartElement (start_name ctx key (VFloat64 s))), c1) \<and>
        pulls n c1 = Some (xml_value ctx key (VFloat64 s), c2) \<and> at c2 ts rest K A"
      using scalar_ctx [of typNumber tok c s K A ctx key ts rest]
      by (cases key) auto
  qed
next
  case (5 s)
  show ?case
  proof (intro allI impI)
    fix c :: Converter and ctx key K A ts tok tks rest
    assume "in_ctx K A ctx" and "key = None \<or> key \<noteq> ctx"
      and "at c ts (map Inr tks @ rest) (push_key K key) A"
      and "tokens_of (VNumber s) = tok # tks"
    then show "\<exists>c1 n c2.
        Token_switch tok c = (Inr (StartElement (start_name ctx key (VNumber s))), c1) \<and>
        pulls n c1 = Some (xml_value ctx key (VNumber s), c2) \<and> at c2 ts rest K A"
      using scalar_ctx [of typNumber tok c s K A ctx key ts rest]
      by (cases key) auto
  qed
next
  case (6 s)
  show ?case
  proof (intro allI impI)
    fix c :: Converter and ctx key K A ts tok tks rest
    assume "in_ctx K A ctx" and "key = None \<or> key \<noteq> ctx"
      and "at c ts (map Inr tks @ rest) (push_key K key) A"
      and "tokens_of (VString s) = tok # tks"
    then show "\<exists>c1 n c2.
        Token_switch tok c = (Inr (StartElement (start_name ctx key (VString s))), c1) \<and>
        pulls n c1 = Some (xml_value ctx key (VString s), c2) \<and> at c2 ts rest K A"
      using scalar_ctx [of typString tok c s K A ctx key ts rest]
      by (cases key) auto
  qed
next
  case 7
  show ?case
  proof (intro allI impI)
    fix c :: Converter and ctx key K A ts tok tks rest
    assume "in_ctx K A ctx" and "key = None \<or> key \<noteq> ctx"
      and "at c ts (map Inr tks @ rest) (push_key K key) A"
      and "tokens_of VNull = tok # tks"
    then show "\<exists>c1 n c2.
        Token_switch tok c = (Inr (StartElement (start_name ctx key VNull)), c1) \<and>
        pulls n c1 = Some (xml_value ctx key VNull, c2) \<and> at c2 ts rest K A"
      using scalar_ctx [of typNull tok c "[]" K A ctx key ts rest]
      by (cases key) auto
  qed
next
  case 8
  show ?case
  proof (intro allI impI)
    fix c :: Converter and ctx K A ts rest
    assume "at c ts (map Inr (fields_tokens []) @ rest) K A"
    then have "pulls 0 c = Some (xml_fields ctx [], c) \<and> at c ts rest K A"
      by simp
    then show "\<exists>n c2. pulls n c = Some (xml_fields ctx [], c2) \<and> at c2 ts rest K A"
      by blast
  qed
next
  case (9 k v fs)
  show ?case
  proof (intro allI impI)
    fix c :: Converter and ctx K A ts rest
    assume cl: "clean_fields ctx ((k, v) # fs)" and ctx: "in_ctx K A ctx"
      and c: "at c ts (map Inr (fields_tokens ((k, v) # fs)) @ rest) K A"
      and ts: "ts \<noteq> []" "last ts = typObject"
    obtain tok tks where v: "tokens_of v = tok # tks"
      using tokens_of_not_Nil [of v] by (cases "tokens_of v") auto
    let ?rest = "map Inr (fields_tokens fs) @ rest"
    have "at c ts (Inr (JString k) # Inr tok # map Inr tks @ ?rest) K A"
      using c v by simp
    from field_pull [OF this ts] obtain c0 where
      c0: "Token c = Token_switch tok c0" "at c0 ts (map Inr tks @ ?rest) (push_key K (Some k)) A"
      by auto
    have p: "clean ctx (Some k) v" "Some k = None \<or> Some k \<noteq> ctx"
      using cl by auto
    from 9(1) [rule_format, OF p(1) ctx p(2) c0(2) v] obtain c1 n c2 where
      s: "Token_switch tok c0 = (Inr (StartElement (start_name ctx (Some k) v)), c1)"
         "pulls n c1 = Some (xml_value ctx (Some k) v, c2)" "at c2 ts ?rest K A"
      by blast
    have q: "clean_fields ctx fs"
      using cl by simp
    from 9(2) [rule_format, OF q ctx s(3) ts] obtain m c3 where
      f: "pulls m c2 = Some (xml_fields ctx fs, c3)" "at c3 ts rest K A"
      by blast
    have "pulls (Suc n) c = Some (StartElement k # xml_value ctx (Some k) v, c2)"
      using c0 s by (simp add: pulls_step)
    from pulls_append [OF this f(1)]
    have "pulls (Suc n + m) c = Some (xml_fields ctx ((k, v) # fs), c3)"
      by simp
    with f show "\<exists>n c2. pulls n c = Some (xml_fields ctx ((k, v) # fs), c2) \<and> at c2 ts rest K A"
      by blast
  qed
next
  case 10
  show ?case
  proof (intro allI impI)
    fix c :: Converter and ctx K A ts rest
    assume "at c ts (map Inr (elems_tokens []) @ rest) K A"
    then have "pulls 0 c = Some (xml_elems ctx [], c) \<and> at c ts rest K A"
      by simp
    then show "\<exists>n c2. pulls n c = Some (xml_elems ctx [], c2) \<and> at c2 ts rest K A"
      by blast
  qed
next
  case (11 v vs)
  show ?case
  proof (intro allI impI)
    fix c :: Converter and ctx K A ts rest
    assume cl: "clean_elems ctx (v # vs)" and ctx: "in_ctx K A ctx"
      and c: "at c ts (map Inr (elems_tokens (v # vs)) @ rest) K A"
      and ts: "ts \<noteq> []" "last ts = typArray"
    obtain tok tks where v: "tokens_of v = tok # tks"
      using tokens_of_not_Nil [of v] by (cases "tokens_of v") auto
    let ?rest = "map Inr (elems_tokens vs) @ rest"
    have "at c ts (Inr tok # map Inr tks @ ?rest) K A"
      using c v by simp
    from elem_pull [OF this ts] obtain c0 where
      c0: "Token c = Token_switch tok c0" "at c0 ts (map Inr tks @ ?rest) (push_key K None) A"
      by auto
    have p: "clean ctx None v" "None = None \<or> None \<noteq> ctx"
      using cl by auto
    from 11(1) [rule_format, OF p(1) ctx p(2) c0(2) v] obtain c1 n c2 where
      s: "Token_switch tok c0 = (Inr (StartElement (start_name ctx None v)), c1)"
         "pulls n c1 = Some (xml_value ctx None v, c2)" "at c2 ts ?rest K A"
      by blast
    have q: "clean_elems ctx vs"
      using cl by simp
    from 11(2) [rule_format, OF q ctx s(3) ts] obtain m c3 where
      f: "pulls m c2 = Some (xml_elems ctx vs, c3)" "at c3 ts rest K A"
      by blast
    have "pulls (Suc n) c = Some (StartElement (start_name ctx None v) # xml_value ctx None v, c2)"
      using c0 s by (simp add: pulls_step)
    from pulls_append [OF this f(1)]
    have "pulls (Suc n + m) c = Some (xml_elems ctx (v # vs), c3)"
      by simp
    with f show "\<exists>n c2. pulls n c = Some (xml_elems ctx (v # vs), c2) \<and> at c2 ts rest K A"
      by blast
  qed
qed

lemma pull_all_pulls:
  "pulls n c = Some (out, c') \<Longrightarrow>
     pull_all c = (case pull_all c' of (toks, e, cf) \<Rightarrow> (out @ toks, e, cf))"
proof (induction n arbitrary: c out)
  case 0
  then show ?case by simp
next
  case (Suc n)
  from Suc.prems obtain tk c1 toks where
    tok: "Token c = (Inr tk, c1)" and rest: "pulls n c1 = Some (toks, c')" and out: "out = tk # toks"
    by (auto simp: pulls.simps split: prod.splits sum.splits option.splits)
  show ?case
    using tok out Suc.IH [OF rest]
    by (subst pull_all.simps) (simp split: prod.splits)
qed

lemma pull_all_end:
  assumes "data c = None" and "types c = []" and "decoder c = []"
  shows "pull_all c = ([], EOF, c)"
proof -
  have "Token c = (Inl EOF, c)"
    using assms by (simp add: Token_def)
  then show ?thesis
    by (subst pull_all.simps) simp
qed

lemma Token_first:
  "tokens_of v = tok # ts \<Longrightarrow>
     Token (Tokens (decoder_of (tokens_of v))) = Token_switch tok (Tokens (decoder_of ts))"
  by (simp add: Token_def Tokens_def decoder_of_def)

lemma clean_output:
  assumes "clean None None v"
  shows "pull_all (Tokens (decoder_of (tokens_of v))) =
           (StartElement (ttypeNames (kind_of v)) # xml_value None None v, EOF, Tokens [])"
proof -
  obtain tok tks where v: "tokens_of v = tok # tks"
    using tokens_of_not_Nil [of v] by (cases "tokens_of v") auto
  let ?c0 = "Tokens (decoder_of tks)"
  have c0: "in_ctx [] [] None" "None = None \<or> None \<noteq> (None :: string option)"
    "at ?c0 [] (map Inr tks @ []) (push_key [] None) []"
    by (simp_all add: at_def Tokens_def decoder_of_def)
  from named(1) [rule_format, OF assms c0 v] obtain c1 n c2 where
    s: "Token_switch tok ?c0 = (Inr (StartElement (start_name None None v)), c1)"
       "pulls n c1 = Some (xml_value None None v, c2)" "at c2 [] [] [] []"
    by blast
  have c2: "c2 = Tokens []"
    using s(3) by (cases c2) (simp add: at_def Tokens_def)
  have "pulls (Suc n) (Tokens (decoder_of (tokens_of v))) =
          Some (StartElement (start_name None None v) # xml_value None None v, c2)"
    using s Token_first [OF v] by (simp add: pulls_step)
  from pull_all_pulls [OF this] show ?thesis
    using pull_all_end [of c2] c2 by (simp add: Tokens_def)
qed

lemma xml_value_last:
  "\<not> is_array w \<Longrightarrow>
     xml_value ctx key w \<noteq> [] \<and>
     last (xml_value ctx key w) = EndElement (default_name ctx (kind_of w))"
  by (cases w) simp_all

lemma keyed_open:
  assumes "data c = None" and "types c \<noteq> []" and "last (types c) = typObject"
    and "\<not> is_array w"
    and "decoder c = Inr (JString k) # map Inr (tokens_of w) @ rest"
    and "arrayKeys c = [] \<or> last (arrayKeys c) \<noteq> k"
  shows "fst (Token c) = Inr (StartElement k) \<and> keyNames (snd (Token c)) = keyNames c
         \<and> types (snd (Token c)) = types c @ [kind_of w]"
proof -
  obtain tok ts where v: "tokens_of w = tok # ts"
    using tokens_of_not_Nil [of w] by (cases "tokens_of w") auto
  have "Token c = Token_switch tok (c\<lparr>keyNames := keyNames c @ [k], decoder := map Inr ts @ rest\<rparr>)"
    using assms v by (intro Token_field) simp_all
  then show ?thesis
    using assms(4,6) v
    by (cases w) (auto simp: outputType_def outputStart_def Let_def)
qed

section \<open>The driver in terms of the pull sequence\<close>



lemma Convert_loop_pull_all:
  "Convert_loop x c s =
     (case pull_all c of (toks, e, cf) \<Rightarrow>
        (case feed x s toks of
           (Some err, s') \<Rightarrow> (Some err, s')
         | (None, s') \<Rightarrow> (if e = EOF then None else Some e, s')))"
proof (induction c arbitrary: s rule: pull_all.induct)
  case (1 c)
  show ?case
  proof (cases "Token c")
    case (Pair r c1)
    show ?thesis
    proof (cases r)
      case (Inl err)
      with Pair show ?thesis
        by (subst Convert_loop.simps, subst pull_all.simps) simp
    next
      case (Inr tk)
      with Pair 1 [of "Inr tk" c1 tk] show ?thesis
        by (subst Convert_loop.simps, subst pull_all.simps)
           (auto split: prod.splits option.splits)
    qed
  qed
qed



section \<open>The claims\<close>

text \<open>
  C1, as stated, fails. In the document \<^verbatim>\<open>{"t":[{"a":1}]}\<close> the field \<^verbatim>\<open>a\<close> has the value
  \<^verbatim>\<open>1\<close>, which is not an array; its frame is opened with \<^verbatim>\<open><a>\<close> and closed with \<^verbatim>\<open></t>\<close>,
  the key of the enclosing array, not with \<^verbatim>\<open></number>\<close>. In \<^verbatim>\<open>{"number":1}\<close> the start
  and end tags of the field have the same name.
\<close>

theorem C1_counterexample:
  "Convert (decoder_of (tokens_of (VObject [(''t'', VArray [VObject [(''a'', VFloat64 ''1'')]])])))
       record_sink [] =
     (None,
      [StartElement ''root'', StartElement ''object'', StartElement ''t'', StartElement ''t'',
       StartElement ''a'', CharData ''1'', EndElement ''t'',
       EndElement ''t'', EndElement ''t'', EndElement ''object'', EndElement ''root''])
   \<and> Convert (decoder_of (tokens_of (VObject [(''number'', VFloat64 ''1'')]))) record_sink [] =
     (None,
      [StartElement ''root'', StartElement ''object'',
       StartElement ''number'', CharData ''1'', EndElement ''number'',
       EndElement ''object'', EndElement ''root''])"
  by (simp add: run_defs)

text \<open>
  C1, amended. (1) For every object field whose value is not an array, read while the
  Array-Binding Stack is empty or its top is not the field's key, the pull that opens the
  value's frame returns a start tag named by the key and leaves the Pending Key Stack as it
  was before the key was read: the key has been pushed and popped. (2) For every document
  in which no field has the key of the innermost key-bound array around it, the converter
  returns the start tag of the root value under the default name of its kind, then the
  tokens of \<open>xml_value\<close>, then signals the end of the input with every stack empty. (3) In
  \<open>xml_value\<close> a field is a start tag named by its key followed by the tokens of its
  value, and (4) the tokens of a value that is not an array end with the end tag named,
  outside every key-bound array, by the default name of the value's kind, and inside a
  key-bound array by the key of the innermost one. So outside key-bound arrays the start
  and end tags of such a field have different names exactly when the key is not the
  default name of the value's kind.
\<close>

theorem C1_keyed_value_names:
  "(data c = None \<and> types c \<noteq> [] \<and> last (types c) = typObject \<and> \<not> is_array w \<and>
    decoder c = Inr (JString k) # map Inr (tokens_of w) @ rest \<and>
    (arrayKeys c = [] \<or> last (arrayKeys c) \<noteq> k)
      \<longrightarrow> fst (Token c) = Inr (StartElement k) \<and> keyNames (snd (Token c)) = keyNames c \<and>
          types (snd (Token c)) = types c @ [kind_of w])
   \<and> (clean None None v
      \<longrightarrow> pull_all (Tokens (decoder_of (tokens_of v))) =
            (StartElement (ttypeNames (kind_of v)) # xml_value None None v, EOF, Tokens []))
   \<and> xml_fields ctx ((k, w) # fs) = StartElement k # xml_value ctx (Some k) w @ xml_fields ctx fs
   \<and> (\<not> is_array w
      \<longrightarrow> xml_value ctx (Some k) w \<noteq> [] \<and>
          last (xml_value ctx (Some k) w) =
            EndElement (case ctx of None \<Rightarrow> ttypeNames (kind_of w) | Some n \<Rightarrow> n))"
  using keyed_open [of c w k rest] clean_output [of v] xml_value_last [of w ctx "Some k"]
  by (cases ctx) simp_all

theorem C1_keyed_value_names_witness:
  "fst (Token \<lparr>decoder = [Inr (JString ''a''), Inr (JFloat64 ''1''), Inr (Delim (CHR ''}''))],
          types = [typObject], data = None, keyNames = [], arrayKeys = []\<rparr>) =
     Inr (StartElement ''a'')
   \<and> pull_all (Tokens (decoder_of (tokens_of
        (VObject [(''a'', VFloat64 ''1''), (''t'', VArray [VObject [(''b'', VNull)]])])))) =
     ([StartElement ''object'',
       StartElement ''a'', CharData ''1'', EndElement ''number'',
       StartElement ''t'', StartElement ''t'', StartElement ''b'', CharData [], EndElement ''t'',
       EndElement ''t'', EndElement ''t'',
       EndElement ''object''], EOF, Tokens [])
   \<and> last (xml_value None (Some ''a'') (VFloat64 ''1'')) = EndElement ''number''"
  using C1_keyed_value_names [of
      "\<lparr>decoder = [Inr (JString ''a''), Inr (JFloat64 ''1''), Inr (Delim (CHR ''}''))],
         types = [typObject], data = None, keyNames = [], arrayKeys = []\<rparr>"
      "VFloat64 ''1''" "''a''" "[Inr (Delim (CHR ''}''))]"
      "VObject [(''a'', VFloat64 ''1''), (''t'', VArray [VObject [(''b'', VNull)]])]"
      None "[]"]
  by simp

text \<open>
  C2, as stated, fails: for the token stream of \<^verbatim>\<open>{"tags":["x","y"]}\<close> the output is not
  \<^verbatim>\<open><root><tags><tags>x</tags><tags>y</tags></tags></root>\<close>.
\<close>

theorem C2_tags_counterexample:
  "serialize (snd (Convert (decoder_of doc_tags) record_sink []))
     \<noteq> ''<root><tags><tags>x</tags><tags>y</tags></tags></root>''"
  by (simp add: run_defs doc_tags_def)

text \<open>
  C2, amended: for the token stream of \<^verbatim>\<open>{"tags":["x","y"]}\<close> the driver succeeds and its
  output is
  \<^verbatim>\<open><root><object><tags><tags>x</tags><tags>y</tags></tags></object></root>\<close>:
  the root object, which has no key, is an element named \<^verbatim>\<open>object\<close>, and inside it the
  array's own element and each of its string elements are named by the key \<^verbatim>\<open>tags\<close>.
\<close>

theorem C2_tags_output:
  "Convert (decoder_of doc_tags) record_sink [] =
     (None,
      [StartElement ''root'', StartElement ''object'', StartElement ''tags'',
       StartElement ''tags'', CharData ''x'', EndElement ''tags'',
       StartElement ''tags'', CharData ''y'', EndElement ''tags'',
       EndElement ''tags'', EndElement ''object'', EndElement ''root''])
   \<and> serialize (snd (Convert (decoder_of doc_tags) record_sink [])) =
     ''<root><object><tags><tags>x</tags><tags>y</tags></tags></object></root>''"
  by (simp add: run_defs doc_tags_def)



text \<open>
  C4: for the token stream of \<^verbatim>\<open>[1,2,3]\<close>, the numbers being floating values or decimal
  texts, the driver succeeds and its output is
  \<^verbatim>\<open><root><array><number>1</number><number>2</number><number>3</number></array></root>\<close>.
\<close>

theorem C4_array_output:
  "Convert (decoder_of (doc_123 (JFloat64 ''1'') (JFloat64 ''2'') (JFloat64 ''3'')))
       record_sink [] =
     (None,
      [StartElement ''root'', StartElement ''array'',
       StartElement ''number'', CharData ''1'', EndElement ''number'',
       StartElement ''number'', CharData ''2'', EndElement ''number'',
       StartElement ''number'', CharData ''3'', EndElement ''number'',
       EndElement ''array'', EndElement ''root''])
   \<and> Convert (decoder_of (doc_123 (JNumber ''1'') (JNumber ''2'') (JNumber ''3'')))
       record_sink [] =
     Convert (decoder_of (doc_123 (JFloat64 ''1'') (JFloat64 ''2'') (JFloat64 ''3'')))
       record_sink []
   \<and> serialize
       (snd (Convert (decoder_of (doc_123 (JFloat64 ''1'') (JFloat64 ''2'') (JFloat64 ''3'')))
          record_sink [])) =
     ''<root><array><number>1</number><number>2</number><number>3</number></array></root>''"
  by (simp add: run_defs doc_123_def)

text \<open>
  C5: a pull that has no pending text (so that it asks the source for a token), finds an
  object on top of the Frame Stack and gets from the source a token that is neither the
  end-of-object marker nor a string fails with \<open>ErrInvalidKey\<close>; it returns no XML token
  and changes nothing in the converter but the decoder.
\<close>

theorem C5_invalid_key:
  assumes "data c = None" and "types c \<noteq> []" and "last (types c) = typObject"
    and "decoder c = Inr token # rest"
    and "token \<noteq> Delim (CHR ''}'')" and "\<forall>s. token \<noteq> JString s"
  shows "Token c = (Inl ErrInvalidKey, c\<lparr>decoder := rest\<rparr>)"
  using assms by (cases token) (simp_all add: Token_def Let_def)

theorem C5_invalid_key_witness:
  "Token \<lparr>decoder = [Inr (JFloat64 ''1''), Inr (Delim (CHR ''}''))], types = [typObject],
      data = None, keyNames = [], arrayKeys = []\<rparr> =
   (Inl ErrInvalidKey,
    \<lparr>decoder = [Inr (Delim (CHR ''}''))], types = [typObject],
      data = None, keyNames = [], arrayKeys = []\<rparr>)"
  using C5_invalid_key [of "\<lparr>decoder = [Inr (JFloat64 ''1''), Inr (Delim (CHR ''}''))],
      types = [typObject], data = None, keyNames = [], arrayKeys = []\<rparr>"
      "JFloat64 ''1''" "[Inr (Delim (CHR ''}''))]"]
  by simp

text \<open>
  C6, as stated, fails: after the start-of-object marker the Frame Stack's top is an object,
  not an array; the pull that then reads an end-of-array marker fails with \<open>ErrInvalidKey\<close>,
  not with \<open>ErrInvalidToken\<close>.
\<close>

theorem C6_counterexample:
  "pulls 1 (Tokens (decoder_of [Delim (CHR ''{''), Delim (CHR '']'')])) =
     Some ([StartElement ''object''],
       \<lparr>decoder = [Inr (Delim (CHR '']''))], types = [typObject], data = None,
         keyNames = [], arrayKeys = []\<rparr>)
   \<and> Token \<lparr>decoder = [Inr (Delim (CHR '']''))], types = [typObject], data = None,
         keyNames = [], arrayKeys = []\<rparr> =
     (Inl ErrInvalidKey,
      \<lparr>decoder = [], types = [typObject], data = None, keyNames = [], arrayKeys = []\<rparr>)"
  by (simp add: pulls.simps pull_defs Tokens_def decoder_of_def)

text \<open>
  C6, amended. A pull that reads an end-of-object marker while the Frame Stack is empty or
  its top is an array fails with \<open>ErrInvalidToken\<close>. A pull that reads an end-of-array
  marker fails with \<open>ErrInvalidToken\<close> when the Frame Stack is empty (a bare end-of-array
  marker) and when the marker stands for the value of a key in an object; where the top of
  the Frame Stack is an object and the marker stands for a key, the pull fails with
  \<open>ErrInvalidKey\<close>. None of these pulls returns an XML token.
\<close>

theorem C6_invalid_token:
  assumes "data c = None"
  shows "((types c = [] \<or> last (types c) = typArray) \<and> decoder c = Inr (Delim (CHR ''}'')) # rest
            \<longrightarrow> Token c = (Inl ErrInvalidToken, c\<lparr>decoder := rest\<rparr>))
       \<and> (types c = [] \<and> decoder c = Inr (Delim (CHR '']'')) # rest
            \<longrightarrow> Token c = (Inl ErrInvalidToken, c\<lparr>decoder := rest\<rparr>))
       \<and> (types c \<noteq> [] \<and> last (types c) = typObject
             \<and> decoder c = Inr (JString k) # Inr (Delim (CHR '']'')) # rest
            \<longrightarrow> Token c = (Inl ErrInvalidToken, c\<lparr>decoder := rest, keyNames := keyNames c @ [k]\<rparr>))
       \<and> (types c \<noteq> [] \<and> last (types c) = typObject \<and> decoder c = Inr (Delim (CHR '']'')) # rest
            \<longrightarrow> Token c = (Inl ErrInvalidKey, c\<lparr>decoder := rest\<rparr>))"
  using assms by (auto simp: Token_def Let_def)

theorem C6_invalid_token_witness:
  "Token (Tokens [Inr (Delim (CHR '']''))]) = (Inl ErrInvalidToken, Tokens [])
   \<and> Token (Tokens [Inr (Delim (CHR ''}''))]) = (Inl ErrInvalidToken, Tokens [])
   \<and> Token \<lparr>decoder = [Inr (JString ''k''), Inr (Delim (CHR '']''))], types = [typObject],
        data = None, keyNames = [], arrayKeys = []\<rparr> =
     (Inl ErrInvalidToken,
      \<lparr>decoder = [], types = [typObject], data = None, keyNames = [''k''], arrayKeys = []\<rparr>)"
  using C6_invalid_token [of "Tokens [Inr (Delim (CHR '']''))]" "[]" "''k''"]
    C6_invalid_token [of "Tokens [Inr (Delim (CHR ''}''))]" "[]" "''k''"]
    C6_invalid_token [of "\<lparr>decoder = [Inr (JString ''k''), Inr (Delim (CHR '']''))],
        types = [typObject], data = None, keyNames = [], arrayKeys = []\<rparr>" "[]" "''k''"]
  by (simp add: Tokens_def)

text \<open>
  C7, as stated, fails in its last part: on the token stream of \<^verbatim>\<open>{}\<close> the converter
  signals end of input, and with a sink that refuses the end tag of the root the driver
  returns the sink's error, not success.
\<close>

theorem C7_counterexample:
  "fst (snd (pull_all (Tokens (decoder_of [Delim (CHR ''{''), Delim (CHR ''}'')])))) = EOF
   \<and> Convert (decoder_of [Delim (CHR ''{''), Delim (CHR ''}'')])
        (refusing_sink (EndElement ''root'')) [] =
     (Some (OtherError ''sink''),
      [StartElement ''root'', StartElement ''object'', EndElement ''object''])"
  by (simp add: pull_all.simps run_defs refusing_sink_def)

text \<open>
  C7, amended. The driver first gives the sink a start tag named \<^verbatim>\<open>root\<close>, and returns the
  sink's error if it refuses it. It then forwards, in order, the tokens the converter
  returns up to its first error. If the sink refuses one of them, the driver returns the
  sink's error and the sink stays as that call left it: no end tag of the root is written.
  If the converter's error is not the end of input, the driver returns it, again without the
  end tag of the root. If the converter signals the end of input, the driver gives the sink
  the end tag named \<^verbatim>\<open>root\<close> and returns what the sink answers: success when the sink
  accepts it.
\<close>

theorem C7_driver:
 "Convert j x s =
   (case x s (StartElement ''root'') of
      (Some err, s1) \<Rightarrow> (Some err, s1)
    | (None, s1) \<Rightarrow>
       (case pull_all (Tokens j) of (toks, e, cf) \<Rightarrow>
         (case feed x s1 toks of
            (Some err, s2) \<Rightarrow> (Some err, s2)
          | (None, s2) \<Rightarrow> if e = EOF then x s2 (EndElement ''root'') else (Some e, s2))))"
  by (simp add: Convert_def Convert_loop_pull_all split: prod.splits option.splits)

text \<open>
  C8: for the token stream of every JSON document, the Frame Stack of a new converter is
  empty before the first pull, the pulls end with the end-of-input signal, and the Frame
  Stack is empty after that last pull.
\<close>

theorem C8_frame_stack_balanced:
  "types (Tokens (decoder_of (tokens_of v))) = []
   \<and> fst (snd (pull_all (Tokens (decoder_of (tokens_of v))))) = EOF
   \<and> types (snd (snd (pull_all (Tokens (decoder_of (tokens_of v)))))) = []"
proof -
  obtain tok ts where v: "tokens_of v = tok # ts"
    using tokens_of_not_Nil [of v] by (cases "tokens_of v") auto
  let ?c0 = "Tokens (decoder_of ts)"
  have c0: "data ?c0 = None" "decoder ?c0 = map Inr ts @ []"
    by (simp_all add: Tokens_def decoder_of_def)
  from balanced(1) [rule_format, OF c0(1) v c0(2)] obtain tk c1 n out c2 where
    s: "Token_switch tok ?c0 = (Inr tk, c1)" "pulls n c1 = Some (out, c2)"
       "types c2 = types ?c0" "data c2 = None" "decoder c2 = []"
    by blast
  have "pulls (Suc n) (Tokens (decoder_of (tokens_of v))) = Some (tk # out, c2)"
    using s Token_first [OF v] by (simp add: pulls_step)
  from pull_all_pulls [OF this]
  have "pull_all (Tokens (decoder_of (tokens_of v))) = (tk # out, EOF, c2)"
    using pull_all_end [of c2] s by (simp add: Tokens_def)
  then show ?thesis
    using s by (simp add: Tokens_def)
qed




end
